theory Spec2Isabelle
  imports Main
begin

section \<open>Errors, values and the object store\<close>

text \<open>
  The implicit treap of \<^verbatim>\<open>umini/data/tree/cartesian/implicit.py\<close> is a graph of mutable
  vertex objects. Vertices live in a store indexed by references; an \<^verbatim>\<open>Optional\<close> vertex
  is a \<open>ref option\<close>, \<open>None\<close> being Python's \<^verbatim>\<open>None\<close>. Every exception the code can raise
  is a value \<open>Inl e\<close>; a method call on \<^verbatim>\<open>None\<close> raises \<open>AttributeError\<close>, \<^verbatim>\<open>len(None)\<close> and
  a call of a non-callable raise \<open>TypeError\<close>. Recursion is bounded by the interpreter's
  recursion limit, the first argument of the recursive functions; exceeding it raises
  \<open>RecursionError\<close>. Computed values are Python integers.
\<close>

datatype error = TypeError | AttributeError | ValueError | RecursionError

definition bind_err :: "error + 'a \<Rightarrow> ('a \<Rightarrow> error + 'b) \<Rightarrow> error + 'b" where
  "bind_err m f = (case m of Inl e \<Rightarrow> Inl e | Inr x \<Rightarrow> f x)"

type_synonym ref = nat

text \<open>
  \<^verbatim>\<open>value_func\<close> is a callable supplied by the caller of the constructor. The only use the
  code makes of it is the call \<^verbatim>\<open>self.__func_calls['value'](self)\<close> in \<^verbatim>\<open>update\<close>, with the
  vertex as the single argument and the result dropped. The model therefore keeps of a
  callable only whether that call returns or raises \<open>TypeError\<close> (as a function with two
  required parameters does).
\<close>

datatype callable = Callable (returns_on_vertex: bool)

text \<open>
  The two closures written in \<^verbatim>\<open>computable\<close>, with their free variables: the field name
  and \<^verbatim>\<open>func\<close>, and for the range wrapper \<^verbatim>\<open>reverse_func\<close>. \<open>Value_func\<close> is the entry that
  \<^verbatim>\<open>__init__\<close> stores under \<^verbatim>\<open>'value'\<close>.
\<close>

datatype lazy_call = Lazy_wrapper string "int \<Rightarrow> int \<Rightarrow> int" "int \<Rightarrow> int \<Rightarrow> int"

datatype func_call =
    Value_func "callable option"
  | Func_wrapper string "int \<Rightarrow> int \<Rightarrow> int"

text \<open>
  A vertex: \<^verbatim>\<open>value\<close>, \<^verbatim>\<open>_priority\<close>, \<^verbatim>\<open>_size\<close>, \<^verbatim>\<open>_left\<close>, \<^verbatim>\<open>_right\<close>, the attributes written
  by \<^verbatim>\<open>__setattr__(field, ...)\<close>, and the two dictionaries \<^verbatim>\<open>__lazy_calls\<close> and
  \<^verbatim>\<open>__func_calls\<close> (insertion ordered). Computed field names are taken to differ from the
  names of the five built-in attributes.
\<close>

record vertex =
  v_value :: "int option"
  v_priority :: int
  v_size :: int
  v_left :: "ref option"
  v_right :: "ref option"
  v_attrs :: "string \<rightharpoonup> int"
  v_lazy_calls :: "(string \<times> lazy_call) list"
  v_func_calls :: "(string \<times> func_call) list"

type_synonym heap = "ref \<Rightarrow> vertex"


text \<open>
  \<^verbatim>\<open>_TreapVertex.__init__\<close>; the priority drawn by \<^verbatim>\<open>random.randint(0, 1000000)\<close> is the
  argument \<open>p\<close>.
\<close>

definition TreapVertex_init :: "int option \<Rightarrow> callable option \<Rightarrow> int \<Rightarrow> vertex" where
  "TreapVertex_init val value_func p =
     \<lparr>v_value = val, v_priority = p, v_size = 1, v_left = None, v_right = None,
      v_attrs = Map.empty, v_lazy_calls = [],
      v_func_calls = [(''value'', Value_func value_func)]\<rparr>"

section \<open>Truth value and length of a vertex\<close>

text \<open>\<^verbatim>\<open>__bool__\<close>: \<^verbatim>\<open>self._size > 0 and self.value is not None\<close>.\<close>

definition vertex_bool :: "vertex \<Rightarrow> bool" where
  "vertex_bool v = (0 < v_size v \<and> v_value v \<noteq> None)"

text \<open>The truth value of an optional vertex, as in \<^verbatim>\<open>if self._left:\<close>.\<close>

definition truthy :: "heap \<Rightarrow> ref option \<Rightarrow> bool" where
  "truthy h x = (case x of None \<Rightarrow> False | Some a \<Rightarrow> vertex_bool (h a))"

text \<open>The built-in \<^verbatim>\<open>len(x)\<close>: \<open>TypeError\<close> on \<^verbatim>\<open>None\<close>, \<^verbatim>\<open>__len__\<close> on a vertex.\<close>

definition len :: "heap \<Rightarrow> ref option \<Rightarrow> error + int" where
  "len h x =
     (case x of
        None \<Rightarrow> Inl TypeError
      | Some a \<Rightarrow> Inr (if vertex_bool (h a) then v_size (h a) else 0))"

text \<open>
  Modelled from the spec: \<^verbatim>\<open>__getattr__\<close> of a vertex. The wrappers call
  \<^verbatim>\<open>x.__getattr__(field)\<close>; no class of this module defines \<^verbatim>\<open>__getattr__\<close>, and the base class
  \<^verbatim>\<open>Vertex\<close> (\<^verbatim>\<open>umini/data/tree/base/vertex.py\<close>) is not among the sources. By the
  specification a vertex carries a mapping from field name to the field's current computed
  value, so the call is taken to read that mapping: it returns what the last
  \<^verbatim>\<open>__setattr__(field, ...)\<close> stored and raises \<open>AttributeError\<close> for a field never stored. On
  \<^verbatim>\<open>None\<close> the call raises \<open>AttributeError\<close> whatever the base class does. (With Python's
  \<^verbatim>\<open>object\<close> alone as base, the call would raise \<open>AttributeError\<close> for every field.) The
  wrappers are the only callers; no wrapper is ever stored by \<^verbatim>\<open>computable\<close> (see there), so
  on the stores the code can build this definition is never evaluated.
\<close>

definition getattr :: "heap \<Rightarrow> ref option \<Rightarrow> string \<Rightarrow> error + int" where
  "getattr h x field =
     (case x of
        None \<Rightarrow> Inl AttributeError
      | Some a \<Rightarrow>
          (case v_attrs (h a) field of None \<Rightarrow> Inl AttributeError | Some y \<Rightarrow> Inr y))"

text \<open>\<^verbatim>\<open>x.__setattr__(field, y)\<close>, the attribute assignment of \<^verbatim>\<open>object\<close>.\<close>

definition setattr :: "heap \<Rightarrow> ref \<Rightarrow> string \<Rightarrow> int \<Rightarrow> heap" where
  "setattr h a field y = h(a := (h a)\<lparr>v_attrs := (v_attrs (h a))(field \<mapsto> y)\<rparr>)"

section \<open>push\<close>

text \<open>
  One statement of the range wrapper:
  \<^verbatim>\<open>if x: x.__setattr__(field, g(x.__getattr__(field), push_value))\<close>.
\<close>

definition apply_to ::
  "heap \<Rightarrow> ref option \<Rightarrow> string \<Rightarrow> (int \<Rightarrow> int \<Rightarrow> int) \<Rightarrow> int \<Rightarrow> error + heap" where
  "apply_to h x field g push_value =
     (case x of
        None \<Rightarrow> Inr h
      | Some a \<Rightarrow>
          if vertex_bool (h a)
          then bind_err (getattr h (Some a) field)
                 (\<lambda>y. Inr (setattr h a field (g y push_value)))
          else Inr h)"

text \<open>
  The range wrapper: \<^verbatim>\<open>reverse_func\<close> on the vertex itself, then \<^verbatim>\<open>func\<close> on the left and
  on the right child, each on the attribute \<^verbatim>\<open>field\<close> of that vertex.
\<close>

definition call_lazy :: "heap \<Rightarrow> lazy_call \<Rightarrow> ref \<Rightarrow> int \<Rightarrow> error + heap" where
  "call_lazy h w self push_value =
     (case w of Lazy_wrapper field func reverse_func \<Rightarrow>
        bind_err (apply_to h (Some self) field reverse_func push_value) (\<lambda>h1.
        bind_err (apply_to h1 (v_left (h1 self)) field func push_value) (\<lambda>h2.
        apply_to h2 (v_right (h2 self)) field func push_value)))"

text \<open>The loop \<^verbatim>\<open>for attr, value in kwargs.items()\<close> of \<^verbatim>\<open>push\<close>.\<close>

fun push_items :: "heap \<Rightarrow> ref \<Rightarrow> (string \<times> int) list \<Rightarrow> error + heap" where
  "push_items h self [] = Inr h"
| "push_items h self ((attr, val) # kwargs) =
     (case map_of (v_lazy_calls (h self)) attr of
        None \<Rightarrow> push_items h self kwargs
      | Some w \<Rightarrow> bind_err (call_lazy h w self val) (\<lambda>h1. push_items h1 self kwargs))"

definition push :: "heap \<Rightarrow> ref option \<Rightarrow> (string \<times> int) list \<Rightarrow> error + heap" where
  "push h x kwargs =
     (case x of
        None \<Rightarrow> Inl AttributeError
      | Some self \<Rightarrow> if vertex_bool (h self) then push_items h self kwargs else Inr h)"

section \<open>update\<close>

text \<open>
  \<^verbatim>\<open>T_co()\<close>: \<^verbatim>\<open>T_co\<close> is the \<^verbatim>\<open>TypeVar\<close> of line 7, which is not callable, so the call raises
  \<open>TypeError\<close>.
\<close>

definition T_co_call :: "error + int" where
  "T_co_call = Inl TypeError"

text \<open>\<^verbatim>\<open>x or T_co()\<close>: the right operand is evaluated only when \<open>x\<close> is falsy (zero).\<close>

definition or_default :: "int \<Rightarrow> error + int \<Rightarrow> error + int" where
  "or_default x dflt = (if x \<noteq> 0 then Inr x else dflt)"

text \<open>
  A call \<^verbatim>\<open>self.__func_calls[attr](self)\<close>: of the stored \<^verbatim>\<open>value_func\<close> (\<open>TypeError\<close> when it
  is \<^verbatim>\<open>None\<close>), or of the plain wrapper, which reads the field of both children.
\<close>

definition call_func :: "heap \<Rightarrow> func_call \<Rightarrow> ref \<Rightarrow> error + heap" where
  "call_func h fc self =
     (case fc of
        Value_func None \<Rightarrow> Inl TypeError
      | Value_func (Some c) \<Rightarrow> if returns_on_vertex c then Inr h else Inl TypeError
      | Func_wrapper field func \<Rightarrow>
          if vertex_bool (h self)
          then bind_err (getattr h (v_left (h self)) field) (\<lambda>a.
               bind_err (or_default a T_co_call) (\<lambda>a'.
               bind_err (getattr h (v_right (h self)) field) (\<lambda>b.
               bind_err (or_default b T_co_call) (\<lambda>b'.
               Inr (setattr h self field (func a' b'))))))
          else Inr h)"

text \<open>The truth value of \<^verbatim>\<open>self.__func_calls.get(attr, None)\<close>.\<close>

definition func_call_bool :: "func_call option \<Rightarrow> bool" where
  "func_call_bool x =
     (case x of None \<Rightarrow> False | Some (Value_func None) \<Rightarrow> False | Some _ \<Rightarrow> True)"

text \<open>The loop \<^verbatim>\<open>for attr in args\<close> of \<^verbatim>\<open>update\<close>.\<close>

fun update_named :: "heap \<Rightarrow> ref \<Rightarrow> string list \<Rightarrow> error + heap" where
  "update_named h self [] = Inr h"
| "update_named h self (attr # args) =
     (case map_of (v_func_calls (h self)) attr of
        None \<Rightarrow> update_named h self args
      | Some fc \<Rightarrow>
          if func_call_bool (Some fc)
          then bind_err (call_func h fc self) (\<lambda>h1. update_named h1 self args)
          else update_named h self args)"

text \<open>
  The loop \<^verbatim>\<open>for attr in self.__func_calls\<close> in the \<^verbatim>\<open>else\<close> clause of the \<^verbatim>\<open>for\<close> statement;
  no call changes the dictionary, so the loop runs over its entries in order.
\<close>

fun update_all :: "heap \<Rightarrow> ref \<Rightarrow> func_call list \<Rightarrow> error + heap" where
  "update_all h self [] = Inr h"
| "update_all h self (fc # fcs) =
     bind_err (call_func h fc self) (\<lambda>h1. update_all h1 self fcs)"

text \<open>
  \<^verbatim>\<open>update\<close>. The \<^verbatim>\<open>for\<close> loop has no \<^verbatim>\<open>break\<close>, so its \<^verbatim>\<open>else\<close> clause runs after every
  completed loop.
\<close>

definition update :: "heap \<Rightarrow> ref option \<Rightarrow> string list \<Rightarrow> error + heap" where
  "update h x args =
     (case x of
        None \<Rightarrow> Inl AttributeError
      | Some self \<Rightarrow>
          if vertex_bool (h self)
          then bind_err (len h (v_left (h self))) (\<lambda>n.
               bind_err (len h (v_right (h self))) (\<lambda>m.
               bind_err (update_named (h(self := (h self)\<lparr>v_size := n + m + 1\<rparr>)) self args)
                 (\<lambda>h2. update_all h2 self (map snd (v_func_calls (h2 self))))))
          else Inr h)"

section \<open>split and merge\<close>

text \<open>
  \<^verbatim>\<open>split(self, key, add, *args, **kwargs)\<close>. The recursive calls pass \<^verbatim>\<open>key\<close>, the new
  \<^verbatim>\<open>add\<close> and \<^verbatim>\<open>**kwargs\<close> only, so \<^verbatim>\<open>args\<close> is empty below the first call. The method
  lookup on \<^verbatim>\<open>None\<close> fails before any call is made. The keywords in \<^verbatim>\<open>kwargs\<close> are names
  other than \<^verbatim>\<open>key\<close> and \<^verbatim>\<open>add\<close>, which Python binds to the parameters of that name.
\<close>

fun split ::
  "nat \<Rightarrow> heap \<Rightarrow> ref option \<Rightarrow> int \<Rightarrow> int \<Rightarrow> string list \<Rightarrow> (string \<times> int) list
     \<Rightarrow> error + (heap \<times> ref option \<times> ref option)" where
  "split d h None key add args kwargs = Inl AttributeError"
| "split 0 h (Some self) key add args kwargs = Inl RecursionError"
| "split (Suc d) h (Some self) key add args kwargs =
     (if \<not> vertex_bool (h self) then Inr (h, Some self, Some self)
      else
        bind_err (push h (Some self) kwargs) (\<lambda>h1.
        bind_err (len h1 (v_left (h1 self))) (\<lambda>n.
        let cur_key = n + add in
        if cur_key \<le> key
        then bind_err (split d h1 (v_left (h1 self)) key add [] kwargs) (\<lambda>(h2, left, right).
             bind_err (update h2 (Some self) args) (\<lambda>h3.
             Inr (h3, left, Some self)))
        else bind_err (len h1 (v_left (h1 self))) (\<lambda>n'.
             bind_err (split d h1 (v_right (h1 self)) key (add + n' + 1) [] kwargs)
               (\<lambda>(h2, left, right).
             bind_err (update h2 (Some self) args) (\<lambda>h3.
             Inr (h3, Some self, right)))))))"

text \<open>
  \<^verbatim>\<open>merge(self, l, r, *args, **kwargs)\<close>; \<open>self\<close> is the vertex the method is called on.
\<close>

fun merge ::
  "nat \<Rightarrow> heap \<Rightarrow> ref \<Rightarrow> ref option \<Rightarrow> ref option \<Rightarrow> string list \<Rightarrow> (string \<times> int) list
     \<Rightarrow> error + (heap \<times> ref option)" where
  "merge 0 h self l r args kwargs = Inl RecursionError"
| "merge (Suc d) h self l r args kwargs =
     bind_err (push h l kwargs) (\<lambda>h1.
     bind_err (push h1 r kwargs) (\<lambda>h2.
     if \<not> truthy h2 l \<or> \<not> truthy h2 r then Inr (h2, if truthy h2 l then l else r)
     else
       let lv = the l; rv = the r in
       if v_priority (h2 lv) > v_priority (h2 rv)
       then bind_err (merge d h2 self (v_right (h2 lv)) r args kwargs) (\<lambda>(h3, m).
            Inr (h3(lv := (h3 lv)\<lparr>v_right := m\<rparr>), l))
       else bind_err (merge d h2 self l (v_left (h2 rv)) args kwargs) (\<lambda>(h3, m).
            bind_err (update (h3(rv := (h3 rv)\<lparr>v_left := m\<rparr>)) (Some self) args) (\<lambda>h4.
            Inr (h4, r)))))"

section \<open>The sequence class\<close>

record implicit_treap =
  tree :: "ref option"

text \<open>\<^verbatim>\<open>ImplicitTreap.__len__\<close>: \<^verbatim>\<open>len(self._tree)\<close>.\<close>

definition treap_len :: "heap \<Rightarrow> implicit_treap \<Rightarrow> error + int" where
  "treap_len h t = len h (tree t)"

text \<open>\<^verbatim>\<open>ImplicitTreap.__bool__\<close>: \<^verbatim>\<open>self._tree is not None\<close>.\<close>

definition treap_bool :: "implicit_treap \<Rightarrow> bool" where
  "treap_bool t = (tree t \<noteq> None)"

section \<open>Field registration\<close>




section \<open>Sample stores\<close>

text \<open>
  \<open>absent_vertex\<close> is \<^verbatim>\<open>_TreapVertex(None)\<close>, a vertex object whose truth value is false.
  \<open>vtx\<close> is a constructed vertex with priority, size and children set.
\<close>

definition absent_vertex :: vertex where
  "absent_vertex = TreapVertex_init None None 0"

definition vtx ::
  "int option \<Rightarrow> int \<Rightarrow> int \<Rightarrow> ref option \<Rightarrow> ref option \<Rightarrow> callable option \<Rightarrow> vertex" where
  "vtx val p sz l r vf = (TreapVertex_init val vf p)\<lparr>v_size := sz, v_left := l, v_right := r\<rparr>"

text \<open>Two vertices as the constructor leaves them: both children are \<^verbatim>\<open>None\<close>.\<close>

definition fresh_heap :: heap where
  "fresh_heap = (\<lambda>_. absent_vertex)
     (1 := TreapVertex_init (Some 7) None 5, 2 := TreapVertex_init (Some 8) None 3)"

text \<open>
  The sequence \<open>[10, 20]\<close>: vertex 1 (value 10) with right child 2 (value 20); every
  missing child is a falsy vertex object, and \<^verbatim>\<open>value_func\<close> accepts a vertex.
\<close>

definition sample_heap :: heap where
  "sample_heap = (\<lambda>_. absent_vertex)
     (1 := vtx (Some 10) 9 2 (Some 3) (Some 2) (Some (Callable True)),
      2 := vtx (Some 20) 4 1 (Some 4) (Some 5) (Some (Callable True)))"

text \<open>Two one-element trees, \<open>[10]\<close> at 1 and \<open>[20]\<close> at 2, with falsy vertex objects as children.\<close>

definition pair_heap :: heap where
  "pair_heap = (\<lambda>_. absent_vertex)
     (1 := vtx (Some 10) 5 1 (Some 3) (Some 4) None,
      2 := vtx (Some 20) 3 1 (Some 5) (Some 6) None)"

text \<open>A vertex that stores the value \<^verbatim>\<open>None\<close> above two one-element subtrees.\<close>

definition hollow_heap :: heap where
  "hollow_heap = (\<lambda>_. absent_vertex)
     (1 := vtx None 9 3 (Some 2) (Some 3) None,
      2 := TreapVertex_init (Some 7) None 5,
      3 := TreapVertex_init (Some 8) None 3)"

text \<open>The tree of \<open>pair_heap\<close> after \<^verbatim>\<open>merge(l, r)\<close>: vertex 2 hangs to the right of vertex 1.\<close>

definition merged_heap :: heap where
  "merged_heap = pair_heap(1 := (pair_heap 1)\<lparr>v_right := Some 2\<rparr>)"

text \<open>
  A vertex whose \<^verbatim>\<open>__func_calls\<close> holds, after the entry of the constructor, two plain
  wrappers for the fields \<open>a\<close> and \<open>b\<close> (both sums) as lines 136 to 146 write them, above
  two children; the argument is the \<^verbatim>\<open>value_func\<close> given to the constructors. It shows both
  loops of \<^verbatim>\<open>update\<close> at work on wrappers; \<^verbatim>\<open>computable\<close> itself cannot store them.
\<close>

definition agg_heap :: "callable option \<Rightarrow> heap" where
  "agg_heap vf = (\<lambda>_. absent_vertex)
     (1 := (vtx (Some 10) 9 3 (Some 2) (Some 3) vf)
             \<lparr>v_attrs := [''a'' \<mapsto> 0, ''b'' \<mapsto> 0],
              v_func_calls :=
                [(''value'', Value_func vf),
                 (''a'', Func_wrapper ''a'' (+)),
                 (''b'', Func_wrapper ''b'' (+))]\<rparr>,
      2 := (TreapVertex_init (Some 7) vf 5)\<lparr>v_attrs := [''a'' \<mapsto> 1, ''b'' \<mapsto> 10]\<rparr>,
      3 := (TreapVertex_init (Some 8) vf 3)\<lparr>v_attrs := [''a'' \<mapsto> 2, ''b'' \<mapsto> 20]\<rparr>)"


section \<open>Trees in the store and the order on priorities\<close>

text \<open>The vertex objects of the tree at \<open>x\<close>: everything reachable through child links.\<close>

inductive_set nodes :: "heap \<Rightarrow> ref option \<Rightarrow> ref set" for h :: heap and x :: "ref option" where
  root: "x = Some a \<Longrightarrow> a \<in> nodes h x"
| left: "a \<in> nodes h x \<Longrightarrow> v_left (h a) = Some c \<Longrightarrow> c \<in> nodes h x"
| right: "a \<in> nodes h x \<Longrightarrow> v_right (h a) = Some c \<Longrightarrow> c \<in> nodes h x"

text \<open>A present child does not exceed its parent \<open>a\<close> in priority.\<close>

definition prio_ok :: "heap \<Rightarrow> ref \<Rightarrow> ref option \<Rightarrow> bool" where
  "prio_ok h a x =
     (case x of
        None \<Rightarrow> True
      | Some c \<Rightarrow> vertex_bool (h c) \<longrightarrow> v_priority (h c) \<le> v_priority (h a))"

definition ordered_at :: "heap \<Rightarrow> ref \<Rightarrow> bool" where
  "ordered_at h a = (prio_ok h a (v_left (h a)) \<and> prio_ok h a (v_right (h a)))"

text \<open>The max-heap property of the tree at \<open>x\<close>.\<close>

definition max_heap :: "heap \<Rightarrow> ref option \<Rightarrow> bool" where
  "max_heap h x = (\<forall>a\<in>nodes h x. ordered_at h a)"

text \<open>
  The same property on a set of objects that is closed under child links, the form in
  which it is an invariant of the operations.
\<close>

definition inside :: "ref set \<Rightarrow> ref option \<Rightarrow> bool" where
  "inside S x = (case x of None \<Rightarrow> True | Some c \<Rightarrow> c \<in> S)"

definition heap_ordered :: "heap \<Rightarrow> ref set \<Rightarrow> bool" where
  "heap_ordered h S =
     (\<forall>a\<in>S. inside S (v_left (h a)) \<and> inside S (v_right (h a)) \<and> ordered_at h a)"

text \<open>What an operation leaves unchanged, from most to least.\<close>

definition attrs_only :: "heap \<Rightarrow> heap \<Rightarrow> bool" where
  "attrs_only h h' =
     (\<forall>b. v_value (h' b) = v_value (h b) \<and> v_priority (h' b) = v_priority (h b) \<and>
          v_size (h' b) = v_size (h b) \<and> v_left (h' b) = v_left (h b) \<and>
          v_right (h' b) = v_right (h b) \<and> v_lazy_calls (h' b) = v_lazy_calls (h b) \<and>
          v_func_calls (h' b) = v_func_calls (h b))"

definition links_kept :: "heap \<Rightarrow> heap \<Rightarrow> bool" where
  "links_kept h h' =
     (\<forall>b. v_priority (h' b) = v_priority (h b) \<and> v_left (h' b) = v_left (h b) \<and>
          v_right (h' b) = v_right (h b) \<and> vertex_bool (h' b) = vertex_bool (h b))"

definition prios_kept :: "heap \<Rightarrow> heap \<Rightarrow> bool" where
  "prios_kept h h' =
     (\<forall>b. v_priority (h' b) = v_priority (h b) \<and> vertex_bool (h' b) = vertex_bool (h b))"

section \<open>Basic facts\<close>

lemma bind_err_Inr_iff:
  "bind_err m f = Inr y \<longleftrightarrow> (\<exists>x. m = Inr x \<and> f x = Inr y)"
  by (cases m) (simp_all add: bind_err_def)

lemma bind_err_simps [simp]:
  "bind_err (Inl e) f = Inl e"
  "bind_err (Inr x) f = f x"
  by (simp_all add: bind_err_def)

section \<open>What push and update leave unchanged\<close>

lemma attrs_only_refl [simp]: "attrs_only h h"
  by (simp add: attrs_only_def)

lemma attrs_only_trans: "attrs_only h h1 \<Longrightarrow> attrs_only h1 h2 \<Longrightarrow> attrs_only h h2"
  by (simp add: attrs_only_def)

lemma attrs_only_setattr [simp]: "attrs_only h (setattr h a f y)"
  by (simp add: attrs_only_def setattr_def)

lemma attrs_only_bool: "attrs_only h h' \<Longrightarrow> vertex_bool (h' b) = vertex_bool (h b)"
  by (simp add: attrs_only_def vertex_bool_def)

lemma links_kept_refl [simp]: "links_kept h h"
  by (simp add: links_kept_def)

lemma links_kept_trans: "links_kept h h1 \<Longrightarrow> links_kept h1 h2 \<Longrightarrow> links_kept h h2"
  by (simp add: links_kept_def)

lemma attrs_only_links_kept: "attrs_only h h' \<Longrightarrow> links_kept h h'"
  by (simp add: attrs_only_def links_kept_def vertex_bool_def)

lemma links_kept_prios_kept: "links_kept h h' \<Longrightarrow> prios_kept h h'"
  by (simp add: prios_kept_def links_kept_def)

lemma prios_kept_refl [simp]: "prios_kept h h"
  by (simp add: prios_kept_def)

lemma prios_kept_trans: "prios_kept h h1 \<Longrightarrow> prios_kept h1 h2 \<Longrightarrow> prios_kept h h2"
  by (simp add: prios_kept_def)

lemma apply_to_attrs_only: "apply_to h x f g v = Inr h' \<Longrightarrow> attrs_only h h'"
  by (auto simp: apply_to_def bind_err_Inr_iff split: option.splits if_splits)

lemma call_lazy_attrs_only: "call_lazy h w self v = Inr h' \<Longrightarrow> attrs_only h h'"
  by (cases w)
     (auto simp: call_lazy_def bind_err_Inr_iff
        dest!: apply_to_attrs_only intro: attrs_only_trans)

lemma push_items_attrs_only: "push_items h self kwargs = Inr h' \<Longrightarrow> attrs_only h h'"
proof (induction kwargs arbitrary: h)
  case Nil
  then show ?case by simp
next
  case (Cons p kwargs)
  obtain attr val where p: "p = (attr, val)" by (cases p)
  show ?case
  proof (cases "map_of (v_lazy_calls (h self)) attr")
    case None
    with Cons p show ?thesis by simp
  next
    case (Some w)
    with Cons.prems p obtain h1 where
      "call_lazy h w self val = Inr h1" "push_items h1 self kwargs = Inr h'"
      by (auto simp: bind_err_Inr_iff)
    then show ?thesis
      using Cons.IH call_lazy_attrs_only attrs_only_trans by blast
  qed
qed

lemma push_links_kept: "push h x kwargs = Inr h' \<Longrightarrow> links_kept h h'"
  by (auto simp: push_def split: option.splits if_splits
      dest!: push_items_attrs_only intro: attrs_only_links_kept)

lemma call_func_attrs_only: "call_func h fc self = Inr h' \<Longrightarrow> attrs_only h h'"
  by (cases fc)
     (auto simp: call_func_def bind_err_Inr_iff split: option.splits if_splits)

lemma update_named_attrs_only: "update_named h self args = Inr h' \<Longrightarrow> attrs_only h h'"
proof (induction args arbitrary: h)
  case Nil
  then show ?case by simp
next
  case (Cons attr args)
  show ?case
  proof (cases "map_of (v_func_calls (h self)) attr")
    case None
    with Cons show ?thesis by simp
  next
    case (Some fc)
    show ?thesis
    proof (cases "func_call_bool (Some fc)")
      case False
      with Cons Some show ?thesis by simp
    next
      case True
      with Cons.prems Some obtain h1 where
        "call_func h fc self = Inr h1" "update_named h1 self args = Inr h'"
        by (auto simp: bind_err_Inr_iff)
      then show ?thesis
        using Cons.IH call_func_attrs_only attrs_only_trans by blast
    qed
  qed
qed

lemma update_all_attrs_only: "update_all h self fcs = Inr h' \<Longrightarrow> attrs_only h h'"
proof (induction fcs arbitrary: h)
  case Nil
  then show ?case by simp
next
  case (Cons fc fcs)
  then obtain h1 where
    "call_func h fc self = Inr h1" "update_all h1 self fcs = Inr h'"
    by (auto simp: bind_err_Inr_iff)
  then show ?case
    using Cons.IH call_func_attrs_only attrs_only_trans by blast
qed

lemma len_nonneg: "len h x = Inr n \<Longrightarrow> 0 \<le> n"
  by (auto simp: len_def vertex_bool_def split: option.splits if_splits)

lemma resize_links_kept:
  "vertex_bool (h a) \<Longrightarrow> 0 < s \<Longrightarrow> links_kept h (h(a := (h a)\<lparr>v_size := s\<rparr>))"
  by (simp add: links_kept_def vertex_bool_def)

lemma update_links_kept:
  assumes "update h x args = Inr h'"
  shows "links_kept h h'"
proof (cases x)
  case None
  with assms show ?thesis by (simp add: update_def)
next
  case (Some self)
  show ?thesis
  proof (cases "vertex_bool (h self)")
    case False
    with assms Some show ?thesis by (simp add: update_def)
  next
    case True
    with assms Some obtain n m h2 where
      n: "len h (v_left (h self)) = Inr n" and m: "len h (v_right (h self)) = Inr m"
      and named: "update_named (h(self := (h self)\<lparr>v_size := n + m + 1\<rparr>)) self args = Inr h2"
      and rest: "update_all h2 self (map snd (v_func_calls (h2 self))) = Inr h'"
      by (auto simp: update_def bind_err_Inr_iff)
    have "0 < n + m + 1" using len_nonneg [OF n] len_nonneg [OF m] by simp
    with True have "links_kept h (h(self := (h self)\<lparr>v_size := n + m + 1\<rparr>))"
      by (rule resize_links_kept)
    moreover have "links_kept (h(self := (h self)\<lparr>v_size := n + m + 1\<rparr>)) h2"
      using named by (blast dest: update_named_attrs_only intro: attrs_only_links_kept)
    moreover have "links_kept h2 h'"
      using rest by (blast dest: update_all_attrs_only intro: attrs_only_links_kept)
    ultimately show ?thesis by (blast intro: links_kept_trans)
  qed
qed

section \<open>The priority order under split and merge\<close>

lemma prio_ok_prios_kept: "prios_kept h h' \<Longrightarrow> prio_ok h' a x = prio_ok h a x"
  by (simp add: prios_kept_def prio_ok_def split: option.splits)

lemma ordered_at_links_kept:
  assumes "links_kept h h'"
  shows "ordered_at h' a = ordered_at h a"
proof -
  have "v_left (h' a) = v_left (h a)" "v_right (h' a) = v_right (h a)"
    using assms by (simp_all add: links_kept_def)
  then show ?thesis
    using prio_ok_prios_kept [OF links_kept_prios_kept [OF assms]]
    by (simp add: ordered_at_def)
qed

lemma heap_ordered_links_kept:
  assumes "heap_ordered h S" and "links_kept h h'"
  shows "heap_ordered h' S"
proof -
  have "v_left (h' a) = v_left (h a)" "v_right (h' a) = v_right (h a)" for a
    using assms(2) by (simp_all add: links_kept_def)
  then show ?thesis
    using assms(1) ordered_at_links_kept [OF assms(2)] by (simp add: heap_ordered_def)
qed

lemma heap_ordered_inside:
  "heap_ordered h S \<Longrightarrow> a \<in> S \<Longrightarrow> inside S (v_left (h a)) \<and> inside S (v_right (h a))"
  by (simp add: heap_ordered_def)

lemma split_None: "split d h None key add args kwargs \<noteq> Inr res"
  by simp

lemma split_frame:
  "split d h x key add args kwargs = Inr (h', l', r') \<Longrightarrow> heap_ordered h S \<Longrightarrow> inside S x
     \<Longrightarrow> links_kept h h' \<and> inside S l' \<and> inside S r' \<and> l' \<noteq> None \<and> r' \<noteq> None"
proof (induction d arbitrary: h x key add args h' l' r')
  case 0
  then show ?case by (cases x) simp_all
next
  case (Suc d)
  from Suc.prems(1) obtain self where x: "x = Some self"
    by (cases x) simp_all
  show ?case
  proof (cases "vertex_bool (h self)")
    case False
    with Suc.prems x show ?thesis by auto
  next
    case True
    with Suc.prems(1) x obtain h1 n where
      p: "push h (Some self) kwargs = Inr h1" and n: "len h1 (v_left (h1 self)) = Inr n"
      by (auto simp: bind_err_Inr_iff)
    have k1: "links_kept h h1" using p by (rule push_links_kept)
    have o1: "heap_ordered h1 S" using Suc.prems(2) k1 by (rule heap_ordered_links_kept)
    have self: "self \<in> S" using Suc.prems(3) x by (simp add: inside_def)
    note kids = heap_ordered_inside [OF o1 self]
    show ?thesis
    proof (cases "n + add \<le> key")
      case le: True
      with Suc.prems(1) x True p n obtain h2 left right where
        rec: "split d h1 (v_left (h1 self)) key add [] kwargs = Inr (h2, left, right)"
        and u: "update h2 (Some self) args = Inr h'" and res: "l' = left" "r' = Some self"
        by (auto simp: bind_err_Inr_iff)
      from Suc.IH [OF rec o1] kids have
        "links_kept h1 h2" "inside S left" "left \<noteq> None" by simp_all
      moreover have "links_kept h2 h'" using u by (rule update_links_kept)
      ultimately show ?thesis
        using k1 res Suc.prems(3) x by (auto intro: links_kept_trans)
    next
      case gt: False
      with Suc.prems(1) x True p n obtain h2 left right where
        rec: "split d h1 (v_right (h1 self)) key (add + n + 1) [] kwargs = Inr (h2, left, right)"
        and u: "update h2 (Some self) args = Inr h'" and res: "l' = Some self" "r' = right"
        by (auto simp: bind_err_Inr_iff)
      from Suc.IH [OF rec o1] kids have
        "links_kept h1 h2" "inside S right" "right \<noteq> None" by simp_all
      moreover have "links_kept h2 h'" using u by (rule update_links_kept)
      ultimately show ?thesis
        using k1 res Suc.prems(3) x by (auto intro: links_kept_trans)
    qed
  qed
qed


lemma relink_prios_kept:
  "prios_kept h (h(a := (h a)\<lparr>v_right := m\<rparr>))" "prios_kept h (h(a := (h a)\<lparr>v_left := m\<rparr>))"
  by (simp_all add: prios_kept_def vertex_bool_def)

lemma relink_right:
  assumes "heap_ordered h S" and "a \<in> S" and "inside S m" and "prio_ok h a m"
  shows "heap_ordered (h(a := (h a)\<lparr>v_right := m\<rparr>)) S"
proof -
  let ?h = "h(a := (h a)\<lparr>v_right := m\<rparr>)"
  have same: "prio_ok ?h b x = prio_ok h b x" for b x
    by (rule prio_ok_prios_kept) (rule relink_prios_kept)
  show ?thesis
    unfolding heap_ordered_def ordered_at_def same
    using assms by (simp add: heap_ordered_def ordered_at_def)
qed

lemma relink_left:
  assumes "heap_ordered h S" and "a \<in> S" and "inside S m" and "prio_ok h a m"
  shows "heap_ordered (h(a := (h a)\<lparr>v_left := m\<rparr>)) S"
proof -
  let ?h = "h(a := (h a)\<lparr>v_left := m\<rparr>)"
  have same: "prio_ok ?h b x = prio_ok h b x" for b x
    by (rule prio_ok_prios_kept) (rule relink_prios_kept)
  show ?thesis
    unfolding heap_ordered_def ordered_at_def same
    using assms by (simp add: heap_ordered_def ordered_at_def)
qed

lemma push_None: "push h None kwargs \<noteq> Inr h'"
  by (simp add: push_def)

lemma merge_frame:
  "merge d h self l r args kwargs = Inr (h', x) \<Longrightarrow> heap_ordered h S \<Longrightarrow> inside S l
     \<Longrightarrow> inside S r
     \<Longrightarrow> heap_ordered h' S \<and> prios_kept h h' \<and> (x = l \<or> x = r) \<and> l \<noteq> None \<and> r \<noteq> None"
proof (induction d arbitrary: h l r h' x)
  case 0
  then show ?case by simp
next
  case (Suc d)
  from Suc.prems(1) obtain h1 h2 where
    p1: "push h l kwargs = Inr h1" and p2: "push h1 r kwargs = Inr h2"
    by (auto simp: bind_err_Inr_iff)
  from p1 obtain lv where l: "l = Some lv" by (cases l) (simp_all add: push_def)
  from p2 obtain rv where r: "r = Some rv" by (cases r) (simp_all add: push_def)
  have k2: "links_kept h h2"
    using p1 p2 by (blast dest: push_links_kept intro: links_kept_trans)
  have o2: "heap_ordered h2 S" using Suc.prems(2) k2 by (rule heap_ordered_links_kept)
  have q2: "prios_kept h h2" using k2 by (rule links_kept_prios_kept)
  have lS: "lv \<in> S" and rS: "rv \<in> S"
    using Suc.prems(3,4) l r by (simp_all add: inside_def)
  show ?case
  proof (cases "\<not> truthy h2 l \<or> \<not> truthy h2 r")
    case True
    with Suc.prems(1) p1 p2 have "h' = h2" "x = l \<or> x = r"
      by (auto split: if_splits)
    with o2 q2 l r show ?thesis by simp
  next
    case both: False
    show ?thesis
    proof (cases "v_priority (h2 lv) > v_priority (h2 rv)")
      case True
      with Suc.prems(1) p1 p2 both l r obtain h3 m where
        rec: "merge d h2 self (v_right (h2 lv)) r args kwargs = Inr (h3, m)"
        and res: "h' = h3(lv := (h3 lv)\<lparr>v_right := m\<rparr>)" "x = l"
        by (auto simp: bind_err_Inr_iff)
      have "inside S (v_right (h2 lv))" using heap_ordered_inside [OF o2 lS] by simp
      from Suc.IH [OF rec o2 this Suc.prems(4)] have
        o3: "heap_ordered h3 S" and q3: "prios_kept h2 h3"
        and m: "m = v_right (h2 lv) \<or> m = r" by simp_all
      have "prio_ok h2 lv m"
      proof (cases "m = r")
        case True
        with r \<open>v_priority (h2 lv) > v_priority (h2 rv)\<close> show ?thesis
          by (simp add: prio_ok_def)
      next
        case False
        with m o2 lS show ?thesis by (simp add: heap_ordered_def ordered_at_def)
      qed
      then have pm: "prio_ok h3 lv m" using prio_ok_prios_kept [OF q3] by simp
      have im: "inside S m"
        using m Suc.prems(4) heap_ordered_inside [OF o2 lS] by auto
      have "heap_ordered h' S" unfolding res using o3 lS im pm by (rule relink_right)
      moreover have "prios_kept h h'"
        unfolding res using q2 q3 relink_prios_kept(1) by (blast intro: prios_kept_trans)
      ultimately show ?thesis using res(2) l r by simp
    next
      case False
      with Suc.prems(1) p1 p2 both l r obtain h3 m where
        rec: "merge d h2 self l (v_left (h2 rv)) args kwargs = Inr (h3, m)"
        and u: "update (h3(rv := (h3 rv)\<lparr>v_left := m\<rparr>)) (Some self) args = Inr h'"
        and res: "x = r"
        by (auto simp: bind_err_Inr_iff)
      have "inside S (v_left (h2 rv))" using heap_ordered_inside [OF o2 rS] by simp
      from Suc.IH [OF rec o2 Suc.prems(3) this] have
        o3: "heap_ordered h3 S" and q3: "prios_kept h2 h3"
        and m: "m = l \<or> m = v_left (h2 rv)" by simp_all
      have "prio_ok h2 rv m"
      proof (cases "m = l")
        case True
        with l False show ?thesis by (simp add: prio_ok_def)
      next
        case ml: False
        with m o2 rS show ?thesis by (simp add: heap_ordered_def ordered_at_def)
      qed
      then have pm: "prio_ok h3 rv m" using prio_ok_prios_kept [OF q3] by simp
      have im: "inside S m"
        using m Suc.prems(3) heap_ordered_inside [OF o2 rS] by auto
      have o4: "heap_ordered (h3(rv := (h3 rv)\<lparr>v_left := m\<rparr>)) S"
        using o3 rS im pm by (rule relink_left)
      have k5: "links_kept (h3(rv := (h3 rv)\<lparr>v_left := m\<rparr>)) h'"
        using u by (rule update_links_kept)
      have "heap_ordered h' S" using o4 k5 by (rule heap_ordered_links_kept)
      moreover have "prios_kept h h'"
        using q2 q3 relink_prios_kept(2) links_kept_prios_kept [OF k5]
        by (blast intro: prios_kept_trans)
      ultimately show ?thesis using res l r by simp
    qed
  qed
qed

lemma nodes_inside:
  assumes "heap_ordered h S" and "inside S x" and "a \<in> nodes h x"
  shows "a \<in> S"
  using assms(3)
proof induction
  case (root a)
  with assms(2) show ?case by (simp add: inside_def)
next
  case (left a c)
  with heap_ordered_inside [OF assms(1), of a] show ?case by (simp add: inside_def)
next
  case (right a c)
  with heap_ordered_inside [OF assms(1), of a] show ?case by (simp add: inside_def)
qed

lemma max_heap_inside:
  assumes "heap_ordered h S" and "inside S x"
  shows "max_heap h x"
  unfolding max_heap_def
proof
  fix a assume "a \<in> nodes h x"
  with assms have "a \<in> S" by (rule nodes_inside)
  with assms(1) show "ordered_at h a" by (simp add: heap_ordered_def)
qed

lemma nodes_Un_ordered:
  assumes "max_heap h x" and "max_heap h y"
  shows "heap_ordered h (nodes h x \<union> nodes h y)"
  unfolding heap_ordered_def
proof (intro ballI conjI)
  fix a assume a: "a \<in> nodes h x \<union> nodes h y"
  show "inside (nodes h x \<union> nodes h y) (v_left (h a))"
    using a by (auto simp: inside_def split: option.splits intro: nodes.left)
  show "inside (nodes h x \<union> nodes h y) (v_right (h a))"
    using a by (auto simp: inside_def split: option.splits intro: nodes.right)
  show "ordered_at h a"
    using a assms by (auto simp: max_heap_def)
qed


lemmas sample_defs =
  absent_vertex_def vtx_def TreapVertex_init_def vertex_bool_def truthy_def len_def
  push_def update_def call_func_def func_call_bool_def

section \<open>Presence of a vertex\<close>

text \<open>
  C10: a vertex counts as present exactly when \<^verbatim>\<open>_size > 0\<close> and its value is not \<^verbatim>\<open>None\<close>.
  A vertex that stores \<^verbatim>\<open>None\<close> is therefore absent for \<^verbatim>\<open>push\<close>, \<^verbatim>\<open>update\<close>, \<^verbatim>\<open>split\<close> and
  \<^verbatim>\<open>len\<close>, whatever its children are: \<^verbatim>\<open>push\<close> and \<^verbatim>\<open>update\<close> leave the store as it is,
  \<^verbatim>\<open>split\<close> returns the vertex itself twice, and its length is 0.
\<close>

theorem valueless_vertex_is_absent:
  "(vertex_bool (h a) \<longleftrightarrow> 0 < v_size (h a) \<and> v_value (h a) \<noteq> None) \<and>
   (v_value (h a) = None \<longrightarrow>
      \<not> truthy h (Some a) \<and>
      push h (Some a) kwargs = Inr h \<and>
      update h (Some a) args = Inr h \<and>
      split (Suc d) h (Some a) key add args kwargs = Inr (h, Some a, Some a) \<and>
      len h (Some a) = Inr 0)"
  by (simp add: vertex_bool_def truthy_def push_def update_def len_def)

theorem valueless_vertex_is_absent_witness:
  "v_value (hollow_heap 1) = None \<and> v_left (hollow_heap 1) = Some 2 \<and>
   truthy hollow_heap (Some 2) \<and> \<not> truthy hollow_heap (Some 1) \<and>
   push hollow_heap (Some 1) [(''total'', 4)] = Inr hollow_heap \<and>
   update hollow_heap (Some 1) [''sum''] = Inr hollow_heap \<and>
   split (Suc 0) hollow_heap (Some 1) 1 0 [''sum''] [(''total'', 4)] =
     Inr (hollow_heap, Some 1, Some 1) \<and>
   len hollow_heap (Some 1) = Inr 0"
  using valueless_vertex_is_absent [where h = hollow_heap and a = 1 and kwargs = "[(''total'', 4)]"
      and args = "[''sum'']" and d = 0 and key = 1 and add = 0]
  by (simp add: hollow_heap_def sample_defs)

section \<open>Length of the sequence\<close>

text \<open>
  C9: the length of a treap is the size of its root, and 0 when there is no root. The code
  computes \<^verbatim>\<open>len(self._tree)\<close>, which raises \<open>TypeError\<close> when the root is \<^verbatim>\<open>None\<close>, the
  state the constructor produces by default; with a root object it returns the size of a
  present root and 0 for a falsy one.
\<close>

theorem treap_len_no_root_raises:
  "treap_len h \<lparr>tree = None\<rparr> = Inl TypeError \<and>
   treap_len h \<lparr>tree = Some a\<rparr> = Inr (if vertex_bool (h a) then v_size (h a) else 0)"
  by (simp add: treap_len_def len_def)

section \<open>split and merge on constructed vertices\<close>

text \<open>
  C1: merging the two results of \<^verbatim>\<open>split(t, k)\<close> gives back the sequence of \<open>t\<close>. On a
  one-element tree as the constructor builds it (children \<^verbatim>\<open>None\<close>), \<^verbatim>\<open>split\<close> raises
  \<open>TypeError\<close> at \<^verbatim>\<open>len(self.left)\<close> for every cut index, so there is nothing to merge.
\<close>

theorem split_constructed_vertex_raises:
  "split (Suc d) fresh_heap (Some 1) k 0 args [] = Inl TypeError"
  by (simp add: fresh_heap_def sample_defs)

text \<open>
  C7: \<^verbatim>\<open>push\<close> and \<^verbatim>\<open>update\<close> on an absent node never raise, also where \<^verbatim>\<open>merge\<close> reaches an
  absent child. Merging two one-element trees as the constructor builds them recurses
  with the winner's right child, which is \<^verbatim>\<open>None\<close>, and \<^verbatim>\<open>l.push\<close> raises \<open>AttributeError\<close>.
\<close>

theorem merge_constructed_vertices_raises:
  "merge (Suc (Suc d)) fresh_heap 0 (Some 1) (Some 2) args [] = Inl AttributeError"
  by (simp add: fresh_heap_def sample_defs)

text \<open>
  C2: for \<open>pos \<le> k\<close>, \<^verbatim>\<open>split\<close> is to split the right child, attach the left result as the
  new right child and return the node as root of the left part. On \<open>[10, 20]\<close> cut at 1
  (\<open>pos = 0\<close>) the code recurses into the left child instead: it returns the falsy left
  child as the left part and the node itself, with its right child still attached, as the
  right part.
\<close>

theorem split_recurses_left:
  "split (Suc (Suc d)) sample_heap (Some 1) 1 0 [] [] = Inr (sample_heap, Some 3, Some 1) \<and>
   \<not> truthy sample_heap (Some 3) \<and> v_right (sample_heap 1) = Some 2 \<and>
   len sample_heap (v_left (sample_heap 1)) = Inr 0"
  by (simp add: sample_heap_def sample_defs fun_eq_iff)

text \<open>
  C5: \<^verbatim>\<open>merge\<close> calls \<^verbatim>\<open>update\<close> on the root it returns, in both branches. When \<open>l\<close> has the
  larger priority the code returns \<open>l\<close> right after the assignment to \<^verbatim>\<open>l.right\<close>: the
  returned root keeps size 1 although its right child now has length 1.
\<close>

theorem merge_returns_stale_root:
  "merge (Suc (Suc d)) pair_heap 0 (Some 1) (Some 2) [] [] = Inr (merged_heap, Some 1) \<and>
   v_size (merged_heap 1) = 1 \<and>
   len merged_heap (v_left (merged_heap 1)) = Inr 0 \<and>
   len merged_heap (v_right (merged_heap 1)) = Inr 1"
  by (simp add: merged_heap_def pair_heap_def sample_defs fun_eq_iff)

text \<open>
  C6: the max-heap property on priorities survives \<^verbatim>\<open>merge\<close> and \<^verbatim>\<open>split\<close>. Whenever
  \<^verbatim>\<open>merge(l, r)\<close> returns and both argument trees have the property, so has the returned
  tree; whenever \<^verbatim>\<open>split\<close> returns and its argument tree has the property, so have both
  returned trees. A tree is all the vertex objects reachable from its root; a present
  child is one whose truth value is true.
\<close>

theorem heap_property_preserved:
  "(max_heap h (Some l) \<and> max_heap h (Some r) \<and>
      merge d h self (Some l) (Some r) args kwargs = Inr (h', x) \<longrightarrow> max_heap h' x) \<and>
   (max_heap g (Some a) \<and> split d' g (Some a) key add args' kwargs' = Inr (g', x1, x2)
      \<longrightarrow> max_heap g' x1 \<and> max_heap g' x2)"
proof (intro conjI impI)
  assume asm: "max_heap h (Some l) \<and> max_heap h (Some r) \<and>
      merge d h self (Some l) (Some r) args kwargs = Inr (h', x)"
  let ?S = "nodes h (Some l) \<union> nodes h (Some r)"
  have o: "heap_ordered h ?S" using asm by (simp add: nodes_Un_ordered)
  have "inside ?S (Some l)" "inside ?S (Some r)"
    by (simp_all add: inside_def nodes.root)
  with merge_frame [of d h self "Some l" "Some r" args kwargs h' x ?S] asm o
  have "heap_ordered h' ?S" "inside ?S x" by auto
  then show "max_heap h' x" by (rule max_heap_inside)
next
  assume asm: "max_heap g (Some a) \<and> split d' g (Some a) key add args' kwargs' = Inr (g', x1, x2)"
  let ?S = "nodes g (Some a)"
  have o: "heap_ordered g ?S" using asm nodes_Un_ordered [of g "Some a" "Some a"] by simp
  have "inside ?S (Some a)" by (simp add: inside_def nodes.root)
  with split_frame [of d' g "Some a" key add args' kwargs' g' x1 x2 ?S] asm o
  have "links_kept g g'" "inside ?S x1" "inside ?S x2" by auto
  then have "heap_ordered g' ?S" "inside ?S x1" "inside ?S x2"
    using o heap_ordered_links_kept by blast+
  then show "max_heap g' x1" "max_heap g' x2" by (auto intro: max_heap_inside)
qed

lemma pair_heap_max_heap: "max_heap pair_heap (Some 1) \<and> max_heap pair_heap (Some 2)"
proof -
  have "heap_ordered pair_heap {1, 2, 3, 4, 5, 6}"
    by (simp add: heap_ordered_def inside_def ordered_at_def prio_ok_def pair_heap_def
        sample_defs)
  then show ?thesis by (auto intro: max_heap_inside simp: inside_def)
qed

lemma sample_heap_max_heap: "max_heap sample_heap (Some 1)"
proof -
  have "heap_ordered sample_heap {1, 2, 3, 4, 5}"
    by (simp add: heap_ordered_def inside_def ordered_at_def prio_ok_def sample_heap_def
        sample_defs)
  then show ?thesis by (auto intro: max_heap_inside simp: inside_def)
qed

theorem heap_property_preserved_witness:
  "max_heap pair_heap (Some 1) \<and> max_heap pair_heap (Some 2) \<and>
   merge (Suc (Suc 0)) pair_heap 0 (Some 1) (Some 2) [] [] = Inr (merged_heap, Some 1) \<and>
   max_heap merged_heap (Some 1) \<and>
   max_heap sample_heap (Some 1) \<and>
   split (Suc (Suc 0)) sample_heap (Some 1) 1 0 [] [] = Inr (sample_heap, Some 3, Some 1) \<and>
   max_heap sample_heap (Some 3)"
proof -
  have m: "merge (Suc (Suc 0)) pair_heap 0 (Some 1) (Some 2) [] [] = Inr (merged_heap, Some 1)"
    by (simp add: merged_heap_def pair_heap_def sample_defs fun_eq_iff)
  have s: "split (Suc (Suc 0)) sample_heap (Some 1) 1 0 [] [] = Inr (sample_heap, Some 3, Some 1)"
    by (simp add: sample_heap_def sample_defs fun_eq_iff)
  show ?thesis
    using heap_property_preserved [where h = pair_heap and l = 1 and r = 2 and d = "Suc (Suc 0)"
        and self = 0 and args = "[]" and kwargs = "[]" and h' = merged_heap and x = "Some 1"
        and g = sample_heap and a = 1 and d' = "Suc (Suc 0)" and key = 1 and add = 0
        and args' = "[]" and kwargs' = "[]" and g' = sample_heap and ?x1.0 = "Some 3"
        and ?x2.0 = "Some 1"]
      pair_heap_max_heap sample_heap_max_heap m s
    by simp
qed

section \<open>The fallback of update\<close>

text \<open>
  C4: \<^verbatim>\<open>update\<close> with field names recomputes exactly the named fields, and all registered
  fields only when no name is given. The code runs the all-fields loop after the named one
  in every call. On a constructed vertex (default \<^verbatim>\<open>value_func\<close>, falsy vertex objects as
  children) \<^verbatim>\<open>update('nosuch')\<close> therefore calls the entry stored under \<^verbatim>\<open>'value'\<close>, which is
  \<^verbatim>\<open>None\<close>, and raises \<open>TypeError\<close>. With wrappers for \<open>a\<close> and \<open>b\<close> in \<^verbatim>\<open>__func_calls\<close>,
  \<^verbatim>\<open>update('a')\<close> raises the same \<open>TypeError\<close>, and with a \<^verbatim>\<open>value_func\<close> that accepts a
  vertex it recomputes \<open>b\<close> as well (from 0 to 30).
\<close>

theorem update_runs_fallback_after_named:
  "update (agg_heap None) (Some 1) [''a''] = Inl TypeError \<and>
   update (agg_heap (Some (Callable True))) (Some 1) [''a''] =
     Inr ((agg_heap (Some (Callable True)))
       (1 := (agg_heap (Some (Callable True)) 1)\<lparr>v_attrs := [''a'' \<mapsto> 3, ''b'' \<mapsto> 30]\<rparr>)) \<and>
   v_attrs (agg_heap (Some (Callable True)) 1) ''b'' = Some 0 \<and>
   update pair_heap (Some 1) [''nosuch''] = Inl TypeError \<and>
   v_func_calls (pair_heap 1) = [(''value'', Value_func None)]"
  by (simp add: agg_heap_def pair_heap_def sample_defs getattr_def setattr_def or_default_def
      fun_eq_iff)

section \<open>Field registration never returns\<close>


section \<open>push without a registered field\<close>



end
